theory Spec2Isabelle
  imports Main "HOL-Library.Sublist"
begin

section \<open>The regular expressions of \<^verbatim>\<open>app/page.tsx\<close>\<close>

text \<open>
  \<^verbatim>\<open>Page\<close> applies two regular-expression literals to the text of \<^verbatim>\<open>index.html\<close>:
  \<^verbatim>\<open>/<body[^>]*>([\s\S]*?)<\/body>/\<close> and \<^verbatim>\<open>/<style[^>]*>([\s\S]*?)<\/style>/\<close>.
  Neither carries a flag, so matching is case-sensitive, \<^verbatim>\<open>String.prototype.match\<close>
  returns the first (leftmost) match only, and a class matches one code unit.
  A string is a list of characters; a character stands for one code unit of the
  decoded text.

  The syntax below covers what the two literals use: pattern characters, character
  classes with the escapes \<^verbatim>\<open>\s\<close> and \<^verbatim>\<open>\S\<close>, the quantifiers \<^verbatim>\<open>*\<close> and \<^verbatim>\<open>*?\<close> on a
  single atom, and one capturing group, written as its two parentheses.
\<close>

datatype class_atom = ClassChar char | ClassSpace | ClassNonSpace

datatype atom = PatternChar char | CharClass bool "class_atom list"

datatype quantifier = Greedy | Lazy

datatype node = Atom atom | Star quantifier atom | GroupOpen | GroupClose

text \<open>The white space of \<^verbatim>\<open>\s\<close> among the characters below 256.\<close>

definition is_space :: "char \<Rightarrow> bool" where
  "is_space c = (of_char c \<in> {9::nat, 10, 11, 12, 13, 32, 160})"

fun class_atom_ok :: "class_atom \<Rightarrow> char \<Rightarrow> bool" where
  "class_atom_ok (ClassChar c) x = (x = c)"
| "class_atom_ok ClassSpace x = is_space x"
| "class_atom_ok ClassNonSpace x = (\<not> is_space x)"

text \<open>\<^term>\<open>CharClass True as\<close> is the negated class \<^verbatim>\<open>[^...]\<close>.\<close>

fun atom_ok :: "atom \<Rightarrow> char \<Rightarrow> bool" where
  "atom_ok (PatternChar c) x = (x = c)"
| "atom_ok (CharClass negated as) x = (list_ex (\<lambda>a. class_atom_ok a x) as \<noteq> negated)"

text \<open>
  The backtracking matcher, at one start position. \<^term>\<open>backtrack p s b cap\<close> matches
  the rest \<open>p\<close> of the pattern against the rest \<open>s\<close> of the input; \<open>b\<close> is the input
  that was left when the group was entered and \<open>cap\<close> the capture of the group
  (\<open>None\<close> is \<^verbatim>\<open>undefined\<close>). The result is \<open>None\<close> on failure and the capture on
  success. A greedy star tries one more repetition before the rest of the pattern,
  a lazy star tries the rest of the pattern first.
\<close>

fun backtrack :: "node list \<Rightarrow> string \<Rightarrow> string option \<Rightarrow> string option \<Rightarrow> string option option" where
  "backtrack [] s b cap = Some cap"
| "backtrack (GroupOpen # p) s b cap = backtrack p s (Some s) cap"
| "backtrack (GroupClose # p) s b cap =
     backtrack p s b (case b of None \<Rightarrow> None | Some t \<Rightarrow> Some (take (length t - length s) t))"
| "backtrack (Atom a # p) [] b cap = None"
| "backtrack (Atom a # p) (x # s) b cap = (if atom_ok a x then backtrack p s b cap else None)"
| "backtrack (Star q a # p) [] b cap = backtrack p [] b cap"
| "backtrack (Star Greedy a # p) (x # s) b cap =
     (if atom_ok a x
      then (case backtrack (Star Greedy a # p) s b cap of
              Some m \<Rightarrow> Some m
            | None \<Rightarrow> backtrack p (x # s) b cap)
      else backtrack p (x # s) b cap)"
| "backtrack (Star Lazy a # p) (x # s) b cap =
     (case backtrack p (x # s) b cap of
        Some m \<Rightarrow> Some m
      | None \<Rightarrow> (if atom_ok a x then backtrack (Star Lazy a # p) s b cap else None))"

text \<open>
  \<^verbatim>\<open>str.match(re)\<close> for a regular expression without the global flag: the start
  positions are tried from the left, the end of the input included, and the first
  one that matches decides. \<open>None\<close> is \<^verbatim>\<open>null\<close>; \<open>Some cap\<close> is a match array whose
  element 1 is \<open>cap\<close>.
\<close>

fun regex_match :: "node list \<Rightarrow> string \<Rightarrow> string option option" where
  "regex_match p [] = backtrack p [] None None"
| "regex_match p (x # s) =
     (case backtrack p (x # s) None None of
        Some m \<Rightarrow> Some m
      | None \<Rightarrow> regex_match p s)"

definition chars :: "string \<Rightarrow> node list" where
  "chars l = map (\<lambda>c. Atom (PatternChar c)) l"

text \<open>The opening tag \<^verbatim>\<open><name[^>]*>\<close> and the whole pattern \<^verbatim>\<open><name[^>]*>([\s\S]*?)<\/name>\<close>.\<close>

definition open_tag :: "string \<Rightarrow> node list" where
  "open_tag name =
     chars (CHR ''<'' # name) @ [Star Greedy (CharClass True [ClassChar CHR ''>'']), Atom (PatternChar CHR ''>'')]"

definition tag_re :: "string \<Rightarrow> node list" where
  "tag_re name =
     open_tag name
     @ [GroupOpen, Star Lazy (CharClass False [ClassSpace, ClassNonSpace]), GroupClose]
     @ chars (''</'' @ name @ ''>'')"

definition body_re :: "node list" where
  "body_re = tag_re ''body''"

definition style_re :: "node list" where
  "style_re = tag_re ''style''"

section \<open>The page component\<close>

text \<open>
  The world \<^verbatim>\<open>Page\<close> runs in: what \<^verbatim>\<open>process.cwd()\<close> yields (the working directory, or
  the error it throws when that directory has been removed), what a read of each
  path yields (the decoded text, or the error \<^verbatim>\<open>readFileSync\<close> throws), and the
  file-system calls made so far.
\<close>

datatype errno = ENOENT | EACCES | EISDIR

datatype fs_call = ReadFile string | WriteFile string string

record world =
  cwd :: "errno + string"
  files :: "string \<Rightarrow> errno + string"
  calls :: "fs_call list"

text \<open>
  \<^verbatim>\<open>path.join\<close> of a directory and one file name: the two joined by one separator.
  The directory is the absolute, normalised path that \<^verbatim>\<open>process.cwd()\<close> returns, so
  there are no \<^verbatim>\<open>.\<close> or \<^verbatim>\<open>..\<close> segments to resolve.
\<close>

definition path_join :: "string \<Rightarrow> string \<Rightarrow> string" where
  "path_join d f =
     (if d = [] then f
      else if last d = CHR ''/'' then d @ f
      else d @ ''/'' @ f)"

definition readFileSync :: "string \<Rightarrow> world \<Rightarrow> (errno + string) \<times> world" where
  "readFileSync p w = (files w p, w\<lparr>calls := calls w @ [ReadFile p]\<rparr>)"

text \<open>
  The element tree \<^verbatim>\<open>Page\<close> returns: a fragment of elements, each with its tag and the
  \<^verbatim>\<open>__html\<close> of its \<^verbatim>\<open>dangerouslySetInnerHTML\<close>.
\<close>

datatype react_node = Fragment "react_node list" | Element string "string option"

definition bodyContent :: "string \<Rightarrow> string option" where
  "bodyContent htmlContent =
     (case regex_match body_re htmlContent of Some m \<Rightarrow> m | None \<Rightarrow> Some [])"

definition styleContent :: "string \<Rightarrow> string option" where
  "styleContent htmlContent =
     (case regex_match style_re htmlContent of Some m \<Rightarrow> m | None \<Rightarrow> Some [])"

definition render :: "string \<Rightarrow> react_node" where
  "render htmlContent =
     Fragment [Element ''style'' (styleContent htmlContent),
               Element ''div'' (bodyContent htmlContent)]"

definition htmlPath :: "string \<Rightarrow> string" where
  "htmlPath d = path_join d ''index.html''"

text \<open>
  Nothing in \<^verbatim>\<open>Page\<close> catches an exception: when \<^verbatim>\<open>process.cwd()\<close> throws, that error is
  the result and no read is made; when \<^verbatim>\<open>readFileSync\<close> throws, that error is the
  result.
\<close>

definition Page :: "world \<Rightarrow> (errno + react_node) \<times> world" where
  "Page w =
     (case cwd w of
        Inl e \<Rightarrow> (Inl e, w)
      | Inr d \<Rightarrow>
          (case readFileSync (htmlPath d) w of
             (Inl e, w') \<Rightarrow> (Inl e, w')
           | (Inr htmlContent, w') \<Rightarrow> (Inr (render htmlContent), w')))"

text \<open>A world whose working directory has been removed.\<close>

definition removed_cwd_world :: world where
  "removed_cwd_world = \<lparr>cwd = Inl ENOENT, files = (\<lambda>p. Inl ENOENT), calls = []\<rparr>"

section \<open>What a match computes\<close>

text \<open>
  Two plain functions, used in the proofs only, that say what the matcher finds
  without the backtracking: \<open>first_occ l s\<close> is the rest of \<open>s\<close> from the first
  occurrence of \<open>l\<close> on, and \<open>tag_at name s\<close> is the capture of a match of
  \<^term>\<open>tag_re name\<close> that starts at the head of \<open>s\<close>.
\<close>

fun first_occ :: "string \<Rightarrow> string \<Rightarrow> string option" where
  "first_occ l [] = (if l = [] then Some [] else None)"
| "first_occ l (x # s) = (if prefix l (x # s) then Some (x # s) else first_occ l s)"

definition tag_at :: "string \<Rightarrow> string \<Rightarrow> string option" where
  "tag_at name s =
     (if prefix (CHR ''<'' # name) s
      then (case dropWhile (\<lambda>x. x \<noteq> CHR ''>'') (drop (Suc (length name)) s) of
              [] \<Rightarrow> None
            | y # r \<Rightarrow> (case first_occ (''</'' @ name @ ''>'') r of
                         None \<Rightarrow> None
                       | Some e \<Rightarrow> Some (take (length r - length e) r)))
      else None)"

section \<open>The matcher on the two patterns\<close>

lemma backtrack_chars:
  "backtrack (chars l @ p) s b cap = (if prefix l s then backtrack p (drop (length l) s) b cap else None)"
proof (induction l arbitrary: s)
  case Nil
  then show ?case by (simp add: chars_def)
next
  case (Cons c l)
  show ?case
  proof (cases s)
    case Nil
    then show ?thesis by (simp add: chars_def)
  next
    case (Cons x s')
    with Cons.IH [of s'] show ?thesis by (simp add: chars_def)
  qed
qed

lemma backtrack_chars_end:
  "backtrack (chars l) s b cap = (if prefix l s then Some cap else None)"
  using backtrack_chars [of l "[]" s b cap] by simp

lemma greedy_until:
  "backtrack (Star Greedy (CharClass True [ClassChar c]) # Atom (PatternChar c) # p) s b cap =
     (case dropWhile (\<lambda>x. x \<noteq> c) s of [] \<Rightarrow> None | y # r \<Rightarrow> backtrack p r b cap)"
proof (induction s)
  case Nil
  then show ?case by simp
next
  case (Cons x s)
  show ?case
  proof (cases "x = c")
    case True
    then show ?thesis by simp
  next
    case False
    with Cons.IH show ?thesis by (simp split: option.splits)
  qed
qed

lemma lazy_find:
  "backtrack (Star Lazy (CharClass False [ClassSpace, ClassNonSpace]) # GroupClose # chars l) s (Some t) cap =
     (case first_occ l s of
        None \<Rightarrow> None
      | Some e \<Rightarrow> Some (Some (take (length t - length e) t)))"
proof (induction s)
  case Nil
  then show ?case by (simp add: backtrack_chars_end)
next
  case (Cons x s)
  then show ?case by (simp add: backtrack_chars_end)
qed

lemma backtrack_after_name:
  "backtrack (Star Greedy (CharClass True [ClassChar CHR ''>'']) # Atom (PatternChar CHR ''>'') #
       GroupOpen # Star Lazy (CharClass False [ClassSpace, ClassNonSpace]) # GroupClose #
       chars l) u None None =
     (case dropWhile (\<lambda>x. x \<noteq> CHR ''>'') u of
        [] \<Rightarrow> None
      | y # r \<Rightarrow> (case first_occ l r of
                   None \<Rightarrow> None
                 | Some e \<Rightarrow> Some (Some (take (length r - length e) r))))"
  by (simp only: greedy_until backtrack.simps lazy_find)

lemma backtrack_tag_re:
  "backtrack (tag_re name) s None None = map_option Some (tag_at name s)"
proof -
  have "backtrack (tag_re name) s None None =
        backtrack (chars (CHR ''<'' # name) @
          (Star Greedy (CharClass True [ClassChar CHR ''>'']) # Atom (PatternChar CHR ''>'') #
           GroupOpen # Star Lazy (CharClass False [ClassSpace, ClassNonSpace]) # GroupClose #
           chars (''</'' @ name @ ''>''))) s None None"
    by (simp add: tag_re_def open_tag_def)
  also have "\<dots> = map_option Some (tag_at name s)"
    unfolding backtrack_chars backtrack_after_name tag_at_def
    by (simp del: dropWhile_eq_Nil_conv split: list.splits option.splits)
  finally show ?thesis .
qed

lemma no_straddle:
  assumes "l \<noteq> []" "hd l \<notin> set (tl l)" "u \<noteq> []" "\<not> prefix l u"
  shows "\<not> prefix l (u @ l @ post)"
proof
  assume "prefix l (u @ l @ post)"
  then have "prefix l u \<or> (\<exists>v. l = u @ v \<and> prefix v (l @ post))"
    by (simp only: prefix_append)
  with assms(4) obtain v where v: "l = u @ v" "prefix v (l @ post)"
    by blast
  from v(1) assms(4) have "v \<noteq> []" by auto
  with v(2) assms(1) have "hd v = hd l"
    by (cases v; cases l) auto
  moreover from v(1) assms(3) \<open>v \<noteq> []\<close> have "hd v \<in> set (tl l)"
    by (cases u; cases v) auto
  ultimately show False using assms(2) by simp
qed

lemma first_occ_region:
  assumes "l \<noteq> []" "hd l \<notin> set (tl l)"
  shows "\<not> sublist l c \<Longrightarrow> first_occ l (c @ l @ post) = Some (l @ post)"
proof (induction c)
  case Nil
  from assms(1) show ?case by (cases l) auto
next
  case (Cons x c)
  from Cons.prems have np: "\<not> prefix l (x # c)" and ns: "\<not> sublist l c"
    by (auto simp: sublist_Cons_right)
  from no_straddle [OF assms _ np, of post] have "\<not> prefix l (x # c @ l @ post)" by simp
  with Cons.IH [OF ns] show ?case by simp
qed

lemma first_occ_sublist: "first_occ l s = Some e \<Longrightarrow> sublist l s"
  by (induction s) (auto simp: sublist_Cons_right split: if_splits)

lemma tag_at_sublist:
  assumes "tag_at name s = Some m"
  shows "sublist (CHR ''<'' # name) s \<and> sublist (''</'' @ name @ ''>'') s"
proof -
  have p: "prefix (CHR ''<'' # name) s"
  proof (rule ccontr)
    assume "\<not> prefix (CHR ''<'' # name) s"
    then have "tag_at name s = None" by (simp add: tag_at_def)
    with assms show False by simp
  qed
  define d where "d = dropWhile (\<lambda>x. x \<noteq> CHR ''>'') (drop (Suc (length name)) s)"
  have "tag_at name s = (case d of [] \<Rightarrow> None
            | y # r \<Rightarrow> (case first_occ (''</'' @ name @ ''>'') r of
                         None \<Rightarrow> None
                       | Some e \<Rightarrow> Some (take (length r - length e) r)))"
    unfolding tag_at_def d_def using p by (rule if_P)
  with assms have t: "(case d of [] \<Rightarrow> None
            | y # r \<Rightarrow> (case first_occ (''</'' @ name @ ''>'') r of
                         None \<Rightarrow> None
                       | Some e \<Rightarrow> Some (take (length r - length e) r))) = Some m"
    by simp
  then obtain y r where d: "d = y # r" by (cases d) simp_all
  with t obtain e where f: "first_occ (''</'' @ name @ ''>'') r = Some e"
    by (cases "first_occ (''</'' @ name @ ''>'') r") simp_all
  have "suffix d (drop (Suc (length name)) s)"
    unfolding d_def by (rule suffix_dropWhile)
  then have "suffix d s"
    by (rule suffix_order.trans [OF _ suffix_drop])
  with d have "suffix r s"
    by (auto dest: suffix_ConsD)
  then obtain zs where "s = zs @ r" by (auto simp: suffix_def)
  moreover from first_occ_sublist [OF f] obtain ps ss where "r = ps @ (''</'' @ name @ ''>'') @ ss"
    unfolding sublist_def by blast
  ultimately have "s = (zs @ ps) @ (''</'' @ name @ ''>'') @ ss" by simp
  then have "sublist (''</'' @ name @ ''>'') s"
    unfolding sublist_def by blast
  with p show ?thesis by simp
qed

lemma regex_match_tag_none:
  "\<not> sublist (CHR ''<'' # name) s \<or> \<not> sublist (''</'' @ name @ ''>'') s \<Longrightarrow>
   regex_match (tag_re name) s = None"
proof (induction s)
  case Nil
  then show ?case by (simp add: backtrack_tag_re tag_at_def)
next
  case (Cons x s)
  from Cons.prems have "tag_at name (x # s) = None"
    using tag_at_sublist [of name "x # s"] by (cases "tag_at name (x # s)") auto
  moreover from Cons.prems have "regex_match (tag_re name) s = None"
    by (intro Cons.IH) (auto simp: sublist_Cons_right)
  ultimately show ?case by (simp add: backtrack_tag_re)
qed

lemma backtrack_open_tag:
  "backtrack (open_tag name) s None None =
     (if prefix (CHR ''<'' # name) s \<and> CHR ''>'' \<in> set (drop (Suc (length name)) s)
      then Some None else None)"
proof -
  have "backtrack (Star Greedy (CharClass True [ClassChar CHR ''>'']) # Atom (PatternChar CHR ''>'') # []) u None None =
        (if CHR ''>'' \<in> set u then Some None else None)" for u
    by (induction u) simp_all
  then show ?thesis
    by (simp add: open_tag_def backtrack_chars)
qed

lemma regex_match_Cons_None:
  "regex_match p (x # s) = None \<Longrightarrow> backtrack p (x # s) None None = None \<and> regex_match p s = None"
  by (cases "backtrack p (x # s) None None") simp_all

lemma dropWhile_until: "c \<notin> set z \<Longrightarrow> dropWhile (\<lambda>x. x \<noteq> c) (z @ c # rest) = c # rest"
  by (induction z) auto

lemma tag_at_region:
  assumes n: "CHR ''<'' \<notin> set name" "CHR ''>'' \<notin> set name"
    and a: "CHR ''>'' \<notin> set attrs"
    and c: "\<not> sublist (''</'' @ name @ ''>'') c"
    and pre: "\<not> (prefix (CHR ''<'' # name) pre \<and> CHR ''>'' \<in> set (drop (Suc (length name)) pre))"
    and p: "prefix (CHR ''<'' # name) (pre @ (CHR ''<'' # name) @ attrs @ CHR ''>'' # c @ (''</'' @ name @ ''>'') @ post)"
  shows "tag_at name (pre @ (CHR ''<'' # name) @ attrs @ CHR ''>'' # c @ (''</'' @ name @ ''>'') @ post) = Some c"
proof -
  let ?l = "''</'' @ name @ ''>''"
  let ?k = "Suc (length name)"
  let ?rest = "c @ ?l @ post"
  let ?R = "(CHR ''<'' # name) @ attrs @ CHR ''>'' # ?rest"
  have g: "CHR ''>'' \<notin> set (drop ?k pre)"
  proof (cases "?k \<le> length pre")
    case True
    with p have "prefix (CHR ''<'' # name) pre"
      by (simp add: prefix_append prefix_length_le) (metis length_Cons prefix_length_prefix prefixI append.assoc)
    with pre show ?thesis by simp
  next
    case False
    then show ?thesis by simp
  qed
  have "drop (?k - length pre) ((CHR ''<'' # name) @ z) = drop (?k - length pre) (CHR ''<'' # name) @ z" for z
    by (simp only: drop_append) simp
  then have "drop ?k (pre @ ?R) = drop ?k pre @ drop (?k - length pre) (CHR ''<'' # name) @ attrs @ CHR ''>'' # ?rest"
    by (simp only: drop_append [of ?k pre])
  then have e: "drop ?k (pre @ ?R) = (drop ?k pre @ drop (?k - length pre) (CHR ''<'' # name) @ attrs) @ CHR ''>'' # ?rest"
    by (simp only: append_assoc)
  have "CHR ''>'' \<notin> set (drop ?k pre @ drop (?k - length pre) (CHR ''<'' # name) @ attrs)"
    using g n(2) a by (auto dest: in_set_dropD)
  then have d: "dropWhile (\<lambda>x. x \<noteq> CHR ''>'') (drop ?k (pre @ ?R)) = CHR ''>'' # ?rest"
    unfolding e by (rule dropWhile_until)
  have l: "?l \<noteq> []" "hd ?l \<notin> set (tl ?l)"
    using n(1) by simp_all
  have f: "first_occ ?l ?rest = Some (?l @ post)"
    by (rule first_occ_region [OF l c])
  have "tag_at name (pre @ ?R) =
        (case dropWhile (\<lambda>x. x \<noteq> CHR ''>'') (drop ?k (pre @ ?R)) of
           [] \<Rightarrow> None
         | y # r \<Rightarrow> (case first_occ ?l r of
                      None \<Rightarrow> None
                    | Some e \<Rightarrow> Some (take (length r - length e) r)))"
    unfolding tag_at_def using p by (rule if_P)
  also have "\<dots> = Some (take (length ?rest - length (?l @ post)) ?rest)"
    unfolding d using f by simp
  also have "\<dots> = Some c" by simp
  finally show ?thesis .
qed

lemma regex_match_first_region:
  assumes n: "CHR ''<'' \<notin> set name" "CHR ''>'' \<notin> set name"
    and a: "CHR ''>'' \<notin> set attrs"
    and c: "\<not> sublist (''</'' @ name @ ''>'') c"
  shows "regex_match (open_tag name) pre = None \<Longrightarrow>
         regex_match (tag_re name) (pre @ (CHR ''<'' # name) @ attrs @ CHR ''>'' # c @ (''</'' @ name @ ''>'') @ post)
           = Some (Some c)"
proof (induction pre)
  case Nil
  have "tag_at name ([] @ (CHR ''<'' # name) @ attrs @ CHR ''>'' # c @ (''</'' @ name @ ''>'') @ post) = Some c"
    by (rule tag_at_region [OF n a c]) simp_all
  then have "backtrack (tag_re name) (CHR ''<'' # name @ attrs @ CHR ''>'' # c @ (''</'' @ name @ ''>'') @ post) None None
               = Some (Some c)"
    by (simp add: backtrack_tag_re)
  then show ?case by simp
next
  case (Cons x pre)
  let ?R = "(CHR ''<'' # name) @ attrs @ CHR ''>'' # c @ (''</'' @ name @ ''>'') @ post"
  from regex_match_Cons_None [OF Cons.prems]
  have h: "backtrack (open_tag name) (x # pre) None None = None"
    and r: "regex_match (open_tag name) pre = None" by simp_all
  from h have np: "\<not> (prefix (CHR ''<'' # name) (x # pre) \<and> CHR ''>'' \<in> set (drop (Suc (length name)) (x # pre)))"
    by (simp add: backtrack_open_tag split: if_splits)
  have "tag_at name ((x # pre) @ ?R) = None \<or> tag_at name ((x # pre) @ ?R) = Some c"
  proof (cases "prefix (CHR ''<'' # name) ((x # pre) @ ?R)")
    case True
    from tag_at_region [OF n a c np True] show ?thesis by simp
  next
    case False
    have "tag_at name ((x # pre) @ ?R) = None"
      unfolding tag_at_def using False by (rule if_not_P)
    then show ?thesis by (rule disjI1)
  qed
  then have "backtrack (tag_re name) (x # pre @ ?R) None None = None
           \<or> backtrack (tag_re name) (x # pre @ ?R) None None = Some (Some c)"
    by (simp add: backtrack_tag_re)
  moreover from Cons.IH [OF r] have "regex_match (tag_re name) (pre @ ?R) = Some (Some c)" .
  ultimately show ?case by auto
qed

section \<open>The first region decides\<close>

text \<open>
  In a text \<open>pre @ <body attrs> c </body> @ post\<close> the capture is \<open>c\<close>, provided that
  no opening tag \<^verbatim>\<open><body[^>]*>\<close> lies within \<open>pre\<close>, that \<open>attrs\<close> has no \<^verbatim>\<open>>\<close>, and
  that \<open>c\<close> does not already contain the closing tag. The same holds for \<^verbatim>\<open>style\<close>.
\<close>

lemma bodyContent_first_region:
  assumes "regex_match (open_tag ''body'') pre = None"
    and "CHR ''>'' \<notin> set attrs"
    and "\<not> sublist ''</body>'' c"
  shows "bodyContent (pre @ ''<body'' @ attrs @ ''>'' @ c @ ''</body>'' @ post) = Some c"
proof -
  have c: "\<not> sublist (''</'' @ ''body'' @ ''>'') c"
    using assms(3) by simp
  have "regex_match (tag_re ''body'')
          (pre @ (CHR ''<'' # ''body'') @ attrs @ CHR ''>'' # c @ (''</'' @ ''body'' @ ''>'') @ post)
        = Some (Some c)"
    by (rule regex_match_first_region [OF _ _ assms(2) c assms(1)]) simp_all
  then show ?thesis by (simp add: bodyContent_def body_re_def)
qed

lemma styleContent_first_region:
  assumes "regex_match (open_tag ''style'') pre = None"
    and "CHR ''>'' \<notin> set attrs"
    and "\<not> sublist ''</style>'' c"
  shows "styleContent (pre @ ''<style'' @ attrs @ ''>'' @ c @ ''</style>'' @ post) = Some c"
proof -
  have c: "\<not> sublist (''</'' @ ''style'' @ ''>'') c"
    using assms(3) by simp
  have "regex_match (tag_re ''style'')
          (pre @ (CHR ''<'' # ''style'') @ attrs @ CHR ''>'' # c @ (''</'' @ ''style'' @ ''>'') @ post)
        = Some (Some c)"
    by (rule regex_match_first_region [OF _ _ assms(2) c assms(1)]) simp_all
  then show ?thesis by (simp add: styleContent_def style_re_def)
qed

text \<open>
  No opening tag within \<open>pre\<close>, said without the matcher: wherever \<open><name\<close> occurs in
  \<open>pre\<close>, no \<open>>\<close> follows it there.
\<close>

lemma open_tag_absent_iff:
  "regex_match (open_tag name) pre = None
   \<longleftrightarrow> (\<forall>u v. pre = u @ (CHR ''<'' # name) @ v \<longrightarrow> CHR ''>'' \<notin> set v)"
proof (induction pre)
  case Nil
  then show ?case by (simp add: backtrack_open_tag)
next
  case (Cons x s)
  let ?here = "prefix (CHR ''<'' # name) (x # s) \<and> CHR ''>'' \<in> set (drop (Suc (length name)) (x # s))"
  have m: "regex_match (open_tag name) (x # s) = None
           \<longleftrightarrow> \<not> ?here \<and> regex_match (open_tag name) s = None"
    by (simp add: backtrack_open_tag)
  have h: "?here \<longleftrightarrow> (\<exists>v. x # s = (CHR ''<'' # name) @ v \<and> CHR ''>'' \<in> set v)"
  proof
    assume ?here
    then obtain v where v: "x # s = (CHR ''<'' # name) @ v"
      by (auto simp: prefix_def)
    then have "drop (Suc (length name)) (x # s) = v"
      by (simp only: drop_append) simp
    with \<open>?here\<close> v show "\<exists>v. x # s = (CHR ''<'' # name) @ v \<and> CHR ''>'' \<in> set v"
      by metis
  next
    assume "\<exists>v. x # s = (CHR ''<'' # name) @ v \<and> CHR ''>'' \<in> set v"
    then obtain v where v: "x # s = (CHR ''<'' # name) @ v" "CHR ''>'' \<in> set v"
      by blast
    from v(1) have "prefix (CHR ''<'' # name) (x # s)"
      by (simp only: prefixI)
    moreover from v(1) have "drop (Suc (length name)) (x # s) = v"
      by (simp only: drop_append) simp
    ultimately show ?here using v(2) by simp
  qed
  have t: "(\<forall>u v. x # s = u @ (CHR ''<'' # name) @ v \<longrightarrow> CHR ''>'' \<notin> set v)
           \<longleftrightarrow> (\<forall>v. x # s = (CHR ''<'' # name) @ v \<longrightarrow> CHR ''>'' \<notin> set v)
                \<and> (\<forall>u v. s = u @ (CHR ''<'' # name) @ v \<longrightarrow> CHR ''>'' \<notin> set v)"
  proof (intro iffI conjI allI impI)
    fix v
    assume a: "\<forall>u v. x # s = u @ (CHR ''<'' # name) @ v \<longrightarrow> CHR ''>'' \<notin> set v"
      and "x # s = (CHR ''<'' # name) @ v"
    then have "x # s = [] @ (CHR ''<'' # name) @ v" by simp
    with a show "CHR ''>'' \<notin> set v" by blast
  next
    fix u v
    assume a: "\<forall>u v. x # s = u @ (CHR ''<'' # name) @ v \<longrightarrow> CHR ''>'' \<notin> set v"
      and "s = u @ (CHR ''<'' # name) @ v"
    then have "x # s = (x # u) @ (CHR ''<'' # name) @ v" by simp
    with a show "CHR ''>'' \<notin> set v" by blast
  next
    fix u v
    assume a: "(\<forall>v. x # s = (CHR ''<'' # name) @ v \<longrightarrow> CHR ''>'' \<notin> set v)
               \<and> (\<forall>u v. s = u @ (CHR ''<'' # name) @ v \<longrightarrow> CHR ''>'' \<notin> set v)"
      and e: "x # s = u @ (CHR ''<'' # name) @ v"
    show "CHR ''>'' \<notin> set v"
    proof (cases u)
      case Nil
      with a e show ?thesis by simp
    next
      case (Cons y u')
      with e have "s = u' @ (CHR ''<'' # name) @ v" by simp
      with a show ?thesis by blast
    qed
  qed
  from m h t Cons.IH show ?case by blast
qed

section \<open>The page as a function of the world\<close>

lemma Page_result:
  "fst (Page w) =
     (case cwd w of
        Inl e \<Rightarrow> Inl e
      | Inr d \<Rightarrow> (case files w (htmlPath d) of Inl e \<Rightarrow> Inl e | Inr t \<Rightarrow> Inr (render t)))"
  by (simp add: Page_def readFileSync_def split: sum.splits)

lemma Page_world:
  "snd (Page w) =
     (case cwd w of
        Inl e \<Rightarrow> w
      | Inr d \<Rightarrow> w\<lparr>calls := calls w @ [ReadFile (htmlPath d)]\<rparr>)"
  by (simp add: Page_def readFileSync_def split: sum.splits)

section \<open>The claims\<close>

text \<open>
  C1, as amended. A text that contains \<^verbatim>\<open><body>Hello</body>\<close>, with no opening tag
  \<^verbatim>\<open><body[^>]*>\<close> within the text before it (no \<^verbatim>\<open><body\<close> there that a \<^verbatim>\<open>>\<close> follows, be it
  the tag \<^verbatim>\<open><body>\<close> or a tag such as \<^verbatim>\<open><bodyguard>\<close>), gives the body fragment \<^verbatim>\<open>Hello\<close>,
  whatever follows the region.
\<close>

theorem body_hello:
  assumes "regex_match (open_tag ''body'') pre = None"
  shows "bodyContent (pre @ ''<body>Hello</body>'' @ post) = Some ''Hello''"
proof -
  have "\<not> sublist ''</body>'' ''Hello''"
    by (simp add: sublist_Cons_right)
  from bodyContent_first_region [OF assms _ this, of "[]" post]
  show ?thesis by simp
qed

theorem body_hello_witness:
  "regex_match (open_tag ''body'') ''<html><head><title>body</title></head>'' = None
   \<and> bodyContent (''<html><head><title>body</title></head>'' @ ''<body>Hello</body>'' @ ''</html>'')
       = Some ''Hello''"
proof -
  have h: "regex_match (open_tag ''body'') ''<html><head><title>body</title></head>'' = None"
    by (simp add: open_tag_def chars_def)
  show ?thesis by (rule conjI [OF h body_hello [OF h]])
qed

text \<open>
  C1 as stated fails when a tag whose name only begins with \<^verbatim>\<open>body\<close> precedes the
  region: in \<^verbatim>\<open><bodyguard>x</bodyguard><body>Hello</body>\<close> the first region between body
  tags is \<^verbatim>\<open><body>Hello</body>\<close>, and the fragment is \<^verbatim>\<open>x</bodyguard><body>Hello\<close>.
\<close>

theorem body_hello_counterexample:
  "bodyContent (''<bodyguard>x</bodyguard>'' @ ''<body>Hello</body>'' @ [])
     = Some ''x</bodyguard><body>Hello''
   \<and> bodyContent (''<bodyguard>x</bodyguard>'' @ ''<body>Hello</body>'' @ []) \<noteq> Some ''Hello''"
  by (simp add: bodyContent_def body_re_def tag_re_def open_tag_def chars_def is_space_def)

text \<open>
  C2, as amended. In a text with two body regions, and no opening tag \<^verbatim>\<open><body[^>]*>\<close>
  within the text before the first of them, the fragment is the inner contents of the
  first one: the lazy star stops at the first closing tag after the first opening
  tag, so \<open>c1\<close> is the text up to that closing tag, and nothing of \<open>mid\<close>, of the
  second region or of \<open>post\<close> is in the fragment.
\<close>

theorem first_body_region_only:
  assumes "regex_match (open_tag ''body'') pre = None"
    and "\<not> sublist ''</body>'' c1"
  shows "bodyContent (pre @ ''<body>'' @ c1 @ ''</body>'' @ mid @ ''<body>'' @ c2 @ ''</body>'' @ post)
         = Some c1"
  using bodyContent_first_region [OF assms(1) _ assms(2), of "[]" "mid @ ''<body>'' @ c2 @ ''</body>'' @ post"]
  by simp

theorem first_body_region_only_witness:
  "regex_match (open_tag ''body'') ''<html>'' = None
   \<and> \<not> sublist ''</body>'' ''<p>one</p>''
   \<and> bodyContent (''<html>'' @ ''<body>'' @ ''<p>one</p>'' @ ''</body>'' @ ''<hr>''
                     @ ''<body>'' @ ''<p>two</p>'' @ ''</body>'' @ ''</html>'')
       = Some ''<p>one</p>''"
proof -
  have h: "regex_match (open_tag ''body'') ''<html>'' = None"
    by (simp add: open_tag_def chars_def)
  have c: "\<not> sublist ''</body>'' ''<p>one</p>''"
    by (simp add: sublist_Cons_right)
  show ?thesis
    by (intro conjI h c first_body_region_only [OF h c])
qed

text \<open>
  C2 as stated fails in the same way: in \<^verbatim>\<open><bodyguard><body>one</body><hr><body>two</body>\<close>
  the first of the two body regions has the inner contents \<^verbatim>\<open>one\<close>, and the fragment is
  \<^verbatim>\<open><body>one\<close>.
\<close>

theorem first_body_region_only_counterexample:
  "bodyContent (''<bodyguard>'' @ ''<body>'' @ ''one'' @ ''</body>'' @ ''<hr>''
                 @ ''<body>'' @ ''two'' @ ''</body>'' @ [])
     = Some ''<body>one''
   \<and> bodyContent (''<bodyguard>'' @ ''<body>'' @ ''one'' @ ''</body>'' @ ''<hr>''
                 @ ''<body>'' @ ''two'' @ ''</body>'' @ [])
     \<noteq> Some ''one''"
  by (simp add: bodyContent_def body_re_def tag_re_def open_tag_def chars_def is_space_def)

text \<open>
  C3. When \<^verbatim>\<open>index.html\<close> in the working directory cannot be read, the file missing or
  unreadable or the working directory itself gone, \<^verbatim>\<open>Page\<close> ends with that error and
  returns no element tree.
\<close>

theorem missing_file_fails:
  assumes "cwd w = Inl e
           \<or> (\<exists>d. cwd w = Inr d \<and> files w (path_join d ''index.html'') = Inl e)"
  shows "fst (Page w) = Inl e \<and> (\<forall>out. fst (Page w) \<noteq> Inr out)"
  using assms by (auto simp: Page_def readFileSync_def htmlPath_def)

theorem missing_file_fails_witness:
  "cwd \<lparr>cwd = Inr ''/app'', files = (\<lambda>p. Inl ENOENT), calls = []\<rparr> = Inr ''/app''
   \<and> files \<lparr>cwd = Inr ''/app'', files = (\<lambda>p. Inl ENOENT), calls = []\<rparr>
        (path_join ''/app'' ''index.html'') = Inl ENOENT
   \<and> fst (Page \<lparr>cwd = Inr ''/app'', files = (\<lambda>p. Inl ENOENT), calls = []\<rparr>) = Inl ENOENT"
proof -
  let ?w = "\<lparr>cwd = Inr ''/app'', files = (\<lambda>p. Inl ENOENT), calls = []\<rparr>"
  have c: "cwd ?w = Inr ''/app''" by simp
  have f: "files ?w (path_join ''/app'' ''index.html'') = Inl ENOENT" by simp
  from c f have h: "cwd ?w = Inl ENOENT
      \<or> (\<exists>d. cwd ?w = Inr d \<and> files ?w (path_join d ''index.html'') = Inl ENOENT)"
    by blast
  from missing_file_fails [OF h] have "fst (Page ?w) = Inl ENOENT"
    by (rule conjunct1)
  with c f show ?thesis by (intro conjI)
qed

text \<open>
  C4. When the style pattern does not match, as in a text without \<^verbatim>\<open><style\<close> or without
  \<^verbatim>\<open></style>\<close>, the style fragment is the empty string and \<^verbatim>\<open>Page\<close> returns its element
  tree, with an empty style element.
\<close>

theorem style_no_match_is_empty:
  assumes "regex_match style_re htmlContent = None
           \<or> \<not> sublist ''<style'' htmlContent \<or> \<not> sublist ''</style>'' htmlContent"
    and "cwd w = Inr d"
    and "files w (htmlPath d) = Inr htmlContent"
  shows "styleContent htmlContent = Some []
         \<and> fst (Page w) = Inr (Fragment [Element ''style'' (Some []),
                                          Element ''div'' (bodyContent htmlContent)])"
proof -
  have "regex_match (tag_re ''style'') htmlContent = None"
    if "\<not> sublist ''<style'' htmlContent \<or> \<not> sublist ''</style>'' htmlContent"
    by (rule regex_match_tag_none) (use that in simp)
  with assms(1) have "regex_match style_re htmlContent = None"
    by (auto simp: style_re_def)
  then have s: "styleContent htmlContent = Some []"
    by (simp add: styleContent_def)
  from assms(2,3) have "fst (Page w) = Inr (render htmlContent)"
    by (simp add: Page_result)
  with s show ?thesis by (simp add: render_def)
qed

theorem style_no_match_is_empty_witness:
  "(regex_match style_re ''<style>p{}<body>Hi</body>'' = None
      \<or> \<not> sublist ''<style'' ''<style>p{}<body>Hi</body>''
      \<or> \<not> sublist ''</style>'' ''<style>p{}<body>Hi</body>'')
   \<and> cwd \<lparr>cwd = Inr ''/app'', files = (\<lambda>p. Inr ''<style>p{}<body>Hi</body>''), calls = []\<rparr>
      = Inr ''/app''
   \<and> files \<lparr>cwd = Inr ''/app'', files = (\<lambda>p. Inr ''<style>p{}<body>Hi</body>''), calls = []\<rparr>
        (htmlPath ''/app'')
      = Inr ''<style>p{}<body>Hi</body>''
   \<and> styleContent ''<style>p{}<body>Hi</body>'' = Some []
   \<and> fst (Page \<lparr>cwd = Inr ''/app'', files = (\<lambda>p. Inr ''<style>p{}<body>Hi</body>''), calls = []\<rparr>)
      = Inr (Fragment [Element ''style'' (Some []), Element ''div'' (Some ''Hi'')])"
proof -
  let ?t = "''<style>p{}<body>Hi</body>''"
  let ?w = "\<lparr>cwd = Inr ''/app'', files = (\<lambda>p. Inr ?t), calls = []\<rparr>"
  have n: "\<not> sublist ''</style>'' ?t"
    by (simp add: sublist_Cons_right)
  then have h: "regex_match style_re ?t = None \<or> \<not> sublist ''<style'' ?t \<or> \<not> sublist ''</style>'' ?t"
    by blast
  have c: "cwd ?w = Inr ''/app''" by simp
  have f: "files ?w (htmlPath ''/app'') = Inr ?t" by simp
  have b: "bodyContent ?t = Some ''Hi''"
    by (simp add: bodyContent_def body_re_def tag_re_def open_tag_def chars_def is_space_def)
  from style_no_match_is_empty [OF h c f] show ?thesis
    using h c f b by simp
qed




text \<open>
  C6, as amended. A text that contains \<^verbatim>\<open><style>.a{color:red}</style>\<close>, with no opening
  tag \<^verbatim>\<open><style[^>]*>\<close> within the text before it (no \<^verbatim>\<open><style\<close> there that a \<^verbatim>\<open>>\<close> follows,
  be it the tag \<^verbatim>\<open><style>\<close> or a tag such as \<^verbatim>\<open><stylesheet>\<close>), gives the style fragment
  \<^verbatim>\<open>.a{color:red}\<close>.
\<close>

theorem style_rule:
  assumes "regex_match (open_tag ''style'') pre = None"
  shows "styleContent (pre @ ''<style>.a{color:red}</style>'' @ post) = Some ''.a{color:red}''"
proof -
  have "\<not> sublist ''</style>'' ''.a{color:red}''"
    by (simp add: sublist_Cons_right)
  from styleContent_first_region [OF assms _ this, of "[]" post]
  show ?thesis by simp
qed

theorem style_rule_witness:
  "regex_match (open_tag ''style'') ''<html><head>'' = None
   \<and> styleContent (''<html><head>'' @ ''<style>.a{color:red}</style>'' @ ''</head><body>x</body></html>'')
       = Some ''.a{color:red}''"
proof -
  have h: "regex_match (open_tag ''style'') ''<html><head>'' = None"
    by (simp add: open_tag_def chars_def)
  show ?thesis by (rule conjI [OF h style_rule [OF h]])
qed

text \<open>
  C6 as stated fails when a tag whose name only begins with \<^verbatim>\<open>style\<close> precedes the
  region: for \<^verbatim>\<open><stylesheet><style>.a{color:red}</style>\<close> the fragment is
  \<^verbatim>\<open><style>.a{color:red}\<close>.
\<close>

theorem style_rule_counterexample:
  "styleContent (''<stylesheet>'' @ ''<style>.a{color:red}</style>'' @ [])
     = Some ''<style>.a{color:red}''
   \<and> styleContent (''<stylesheet>'' @ ''<style>.a{color:red}</style>'' @ [])
     \<noteq> Some ''.a{color:red}''"
  by (simp add: styleContent_def style_re_def tag_re_def open_tag_def chars_def is_space_def)

text \<open>
  C7. The result of \<^verbatim>\<open>Page\<close> is determined by the text of the file: two worlds in which
  the file reads the same text give the same element tree, a second invocation after
  the first gives the same tree again, and the tree is the style element and the div
  element with the two fragments of that text.
\<close>

theorem render_deterministic:
  assumes "cwd w1 = Inr d1" and "files w1 (htmlPath d1) = Inr htmlContent"
    and "cwd w2 = Inr d2" and "files w2 (htmlPath d2) = Inr htmlContent"
  shows "fst (Page w1) = fst (Page w2)
         \<and> fst (Page (snd (Page w1))) = fst (Page w1)
         \<and> fst (Page w1) = Inr (Fragment [Element ''style'' (styleContent htmlContent),
                                           Element ''div'' (bodyContent htmlContent)])"
  using assms by (simp add: Page_result Page_world render_def)

theorem render_deterministic_witness:
  "cwd \<lparr>cwd = Inr ''/app'', files = (\<lambda>p. if p = ''/app/index.html'' then Inr ''<body>Hi</body>'' else Inl ENOENT), calls = []\<rparr>
     = Inr ''/app''
   \<and> files \<lparr>cwd = Inr ''/app'', files = (\<lambda>p. if p = ''/app/index.html'' then Inr ''<body>Hi</body>'' else Inl ENOENT), calls = []\<rparr>
     (htmlPath ''/app'')
     = Inr ''<body>Hi</body>''
   \<and> cwd \<lparr>cwd = Inr ''/srv/'', files = (\<lambda>p. Inr ''<body>Hi</body>''), calls = [ReadFile ''/srv/index.html'']\<rparr>
     = Inr ''/srv/''
   \<and> files \<lparr>cwd = Inr ''/srv/'', files = (\<lambda>p. Inr ''<body>Hi</body>''), calls = [ReadFile ''/srv/index.html'']\<rparr>
     (htmlPath ''/srv/'')
     = Inr ''<body>Hi</body>''
   \<and> fst (Page \<lparr>cwd = Inr ''/app'', files = (\<lambda>p. if p = ''/app/index.html'' then Inr ''<body>Hi</body>'' else Inl ENOENT), calls = []\<rparr>)
     = fst (Page \<lparr>cwd = Inr ''/srv/'', files = (\<lambda>p. Inr ''<body>Hi</body>''), calls = [ReadFile ''/srv/index.html'']\<rparr>)"
proof -
  let ?w1 = "\<lparr>cwd = Inr ''/app'', files = (\<lambda>p. if p = ''/app/index.html'' then Inr ''<body>Hi</body>'' else Inl ENOENT), calls = []\<rparr>"
  let ?w2 = "\<lparr>cwd = Inr ''/srv/'', files = (\<lambda>p. Inr ''<body>Hi</body>''), calls = [ReadFile ''/srv/index.html'']\<rparr>"
  have c1: "cwd ?w1 = Inr ''/app''" by simp
  have h1: "files ?w1 (htmlPath ''/app'') = Inr ''<body>Hi</body>''"
    by (simp add: htmlPath_def path_join_def)
  have c2: "cwd ?w2 = Inr ''/srv/''" by simp
  have h2: "files ?w2 (htmlPath ''/srv/'') = Inr ''<body>Hi</body>''"
    by simp
  from render_deterministic [OF c1 h1 c2 h2] have "fst (Page ?w1) = fst (Page ?w2)"
    by (rule conjunct1)
  with c1 h1 c2 h2 show ?thesis by (intro conjI)
qed

text \<open>
  C8, as amended. An invocation of \<^verbatim>\<open>Page\<close> leaves the world as it was, the files and the
  working directory included, but for the file-system call it makes: one read of
  \<^verbatim>\<open>index.html\<close> in the working directory when \<^verbatim>\<open>process.cwd()\<close> returns, and no call at all
  when \<^verbatim>\<open>process.cwd()\<close> throws. It makes no write.
\<close>

theorem render_read_only:
  "snd (Page w) =
     (case cwd w of
        Inl e \<Rightarrow> w
      | Inr d \<Rightarrow> w\<lparr>calls := calls w @ [ReadFile (path_join d ''index.html'')]\<rparr>)"
  by (simp add: Page_world htmlPath_def split: sum.splits)

text \<open>
  C8 as stated, one read in every invocation, fails when the working directory has
  been removed: \<^verbatim>\<open>process.cwd()\<close> throws before \<^verbatim>\<open>readFileSync\<close> is reached, and the
  invocation makes no read.
\<close>

theorem render_read_only_counterexample:
  "fst (Page removed_cwd_world) = Inl ENOENT
   \<and> calls (snd (Page removed_cwd_world)) = calls removed_cwd_world
   \<and> calls (snd (Page removed_cwd_world)) = []"
  by (simp add: Page_def removed_cwd_world_def)

text \<open>
  C9. The opening tag of the pattern accepts every tag whose name begins with
  \<^verbatim>\<open>body\<close>, respectively \<^verbatim>\<open>style\<close>: whatever characters \<open>ext\<close> other than \<^verbatim>\<open>>\<close> follow the
  name, the fragment of \<^verbatim>\<open><body\<close>\<open>ext\<close>\<^verbatim>\<open>>\<close>\<open>c\<close>\<^verbatim>\<open></body>\<close> is \<open>c\<close>. So \<^verbatim>\<open><bodyx>Hi</body>\<close>, which
  has no \<^verbatim>\<open><body>\<close>, has the body fragment \<^verbatim>\<open>Hi\<close>, and \<^verbatim>\<open><styles>p{}</style>\<close>, which has
  no \<^verbatim>\<open><style>\<close>, has the style fragment \<^verbatim>\<open>p{}\<close>.
\<close>

theorem open_tag_accepts_longer_name:
  "(CHR ''>'' \<notin> set ext \<and> \<not> sublist ''</body>'' c
      \<longrightarrow> bodyContent (''<body'' @ ext @ ''>'' @ c @ ''</body>'' @ post) = Some c)
   \<and> (CHR ''>'' \<notin> set ext \<and> \<not> sublist ''</style>'' c
      \<longrightarrow> styleContent (''<style'' @ ext @ ''>'' @ c @ ''</style>'' @ post) = Some c)
   \<and> bodyContent ''<bodyx>Hi</body>'' = Some ''Hi''
   \<and> \<not> sublist ''<body>'' ''<bodyx>Hi</body>''
   \<and> styleContent ''<styles>p{}</style>'' = Some ''p{}''
   \<and> \<not> sublist ''<style>'' ''<styles>p{}</style>''"
proof -
  have nb: "regex_match (open_tag ''body'') [] = None"
    and ns: "regex_match (open_tag ''style'') [] = None"
    by (simp_all add: open_tag_def chars_def)
  have b: "bodyContent (''<body'' @ ext @ ''>'' @ c @ ''</body>'' @ post) = Some c"
    if "CHR ''>'' \<notin> set ext" "\<not> sublist ''</body>'' c" for ext c post
    using bodyContent_first_region [OF nb that, of post] by simp
  have s: "styleContent (''<style'' @ ext @ ''>'' @ c @ ''</style>'' @ post) = Some c"
    if "CHR ''>'' \<notin> set ext" "\<not> sublist ''</style>'' c" for ext c post
    using styleContent_first_region [OF ns that, of post] by simp
  have "bodyContent ''<bodyx>Hi</body>'' = Some ''Hi''"
    using b [of "''x''" "''Hi''" "[]"] by (simp add: sublist_Cons_right)
  moreover have "styleContent ''<styles>p{}</style>'' = Some ''p{}''"
    using s [of "''s''" "''p{}''" "[]"] by (simp add: sublist_Cons_right)
  moreover have "\<not> sublist ''<body>'' ''<bodyx>Hi</body>''"
    and "\<not> sublist ''<style>'' ''<styles>p{}</style>''"
    by (simp_all add: sublist_Cons_right)
  ultimately show ?thesis using b s by blast
qed

theorem open_tag_accepts_longer_name_witness:
  "CHR ''>'' \<notin> set ''guard id=g''
   \<and> \<not> sublist ''</body>'' ''<p>x</p>''
   \<and> bodyContent (''<body'' @ ''guard id=g'' @ ''>'' @ ''<p>x</p>'' @ ''</body>'' @ ''<hr>'')
       = Some ''<p>x</p>''
   \<and> CHR ''>'' \<notin> set ''sheet''
   \<and> \<not> sublist ''</style>'' ''p{}''
   \<and> styleContent (''<style'' @ ''sheet'' @ ''>'' @ ''p{}'' @ ''</style>'' @ []) = Some ''p{}''"
proof -
  have e1: "CHR ''>'' \<notin> set ''guard id=g''" by simp
  have c1: "\<not> sublist ''</body>'' ''<p>x</p>''" by (simp add: sublist_Cons_right)
  have e2: "CHR ''>'' \<notin> set ''sheet''" by simp
  have c2: "\<not> sublist ''</style>'' ''p{}''" by (simp add: sublist_Cons_right)
  from open_tag_accepts_longer_name [of "''guard id=g''" "''<p>x</p>''" "''<hr>''"] e1 c1
  have 1: "bodyContent (''<body'' @ ''guard id=g'' @ ''>'' @ ''<p>x</p>'' @ ''</body>'' @ ''<hr>'')
             = Some ''<p>x</p>''"
    by blast
  from open_tag_accepts_longer_name [of "''sheet''" "''p{}''" "[]"] e2 c2
  have 2: "styleContent (''<style'' @ ''sheet'' @ ''>'' @ ''p{}'' @ ''</style>'' @ []) = Some ''p{}''"
    by blast
  from e1 c1 1 e2 c2 2 show ?thesis by (intro conjI)
qed

text \<open>
  C10. Matching is case-sensitive: a text with a region in upper-case tags,
  \<^verbatim>\<open><BODY ...> ... </BODY>\<close>, and without the lower-case \<^verbatim>\<open><body\<close> or without the
  lower-case \<^verbatim>\<open></body>\<close>, has the empty body fragment; likewise for \<^verbatim>\<open><STYLE>\<close> and
  the style fragment.
\<close>

theorem upper_case_tags_not_matched:
  "(\<not> sublist ''<body'' (pre @ ''<BODY'' @ attrs @ ''>'' @ c @ ''</BODY>'' @ post)
      \<or> \<not> sublist ''</body>'' (pre @ ''<BODY'' @ attrs @ ''>'' @ c @ ''</BODY>'' @ post)
    \<longrightarrow> bodyContent (pre @ ''<BODY'' @ attrs @ ''>'' @ c @ ''</BODY>'' @ post) = Some [])
   \<and> (\<not> sublist ''<style'' (pre @ ''<STYLE'' @ attrs @ ''>'' @ c @ ''</STYLE>'' @ post)
      \<or> \<not> sublist ''</style>'' (pre @ ''<STYLE'' @ attrs @ ''>'' @ c @ ''</STYLE>'' @ post)
    \<longrightarrow> styleContent (pre @ ''<STYLE'' @ attrs @ ''>'' @ c @ ''</STYLE>'' @ post) = Some [])"
proof -
  have "regex_match (tag_re name) t = None \<Longrightarrow>
        (case regex_match (tag_re name) t of Some m \<Rightarrow> m | None \<Rightarrow> Some []) = Some []" for name t
    by simp
  then show ?thesis
    unfolding bodyContent_def styleContent_def body_re_def style_re_def
    using regex_match_tag_none [of "''body''"] regex_match_tag_none [of "''style''"]
    by (metis append_Cons append_Nil)
qed

theorem upper_case_tags_not_matched_witness:
  "\<not> sublist ''<body'' ([] @ ''<BODY'' @ [] @ ''>'' @ ''Hi'' @ ''</BODY>'' @ [])
   \<and> bodyContent ([] @ ''<BODY'' @ [] @ ''>'' @ ''Hi'' @ ''</BODY>'' @ []) = Some []
   \<and> \<not> sublist ''<style'' ([] @ ''<STYLE'' @ [] @ ''>'' @ ''p{}'' @ ''</STYLE>'' @ [])
   \<and> styleContent ([] @ ''<STYLE'' @ [] @ ''>'' @ ''p{}'' @ ''</STYLE>'' @ []) = Some []"
proof -
  have b: "\<not> sublist ''<body'' ([] @ ''<BODY'' @ [] @ ''>'' @ ''Hi'' @ ''</BODY>'' @ [])"
    by (simp add: sublist_Cons_right)
  have s: "\<not> sublist ''<style'' ([] @ ''<STYLE'' @ [] @ ''>'' @ ''p{}'' @ ''</STYLE>'' @ [])"
    by (simp add: sublist_Cons_right)
  from upper_case_tags_not_matched [of "[]" "[]" "''Hi''" "[]"] b
  have 1: "bodyContent ([] @ ''<BODY'' @ [] @ ''>'' @ ''Hi'' @ ''</BODY>'' @ []) = Some []"
    by blast
  from upper_case_tags_not_matched [of "[]" "[]" "''p{}''" "[]"] s
  have 2: "styleContent ([] @ ''<STYLE'' @ [] @ ''>'' @ ''p{}'' @ ''</STYLE>'' @ []) = Some []"
    by blast
  from b 1 s 2 show ?thesis by (intro conjI)
qed

end
